theory Spec2Isabelle
  imports Complex_Main
begin

section \<open>The shifted-beta-geometric model of \<open>sbg.py\<close>\<close>

text \<open>
  Numbers are modelled as exact reals: the arithmetic of the source is taken without
  rounding (as it runs on exact rational inputs), so the statements below are about the
  formulas the code evaluates, not about IEEE rounding. Horizons, period indices and list
  indices are Python integers (\<open>int\<close>). Every exception the source can raise is a
  value of \<open>error\<close>, and a fallible function returns \<open>error + 'a\<close>.
\<close>

datatype error = ZeroDivisionError | IndexError | ValueError | RecursionError

subsection \<open>Python primitives used by the module\<close>

definition div_py :: "real \<Rightarrow> real \<Rightarrow> error + real" where
  \<comment> \<open>\<open>a / b\<close>: true division, raising on a zero divisor.\<close>
  "div_py a b = (if b = 0 then Inl ZeroDivisionError else Inr (a / b))"

definition getitem :: "'a list \<Rightarrow> int \<Rightarrow> error + 'a" where
  \<comment> \<open>\<open>xs[i]\<close>: a position from the front when \<open>i \<ge> 0\<close>, from the back when \<open>i < 0\<close>.\<close>
  "getitem xs i =
     (if 0 \<le> i \<and> i < int (length xs) then Inr (xs ! nat i)
      else if i < 0 \<and> - int (length xs) \<le> i then Inr (xs ! nat (int (length xs) + i))
      else Inl IndexError)"

definition log_py :: "real \<Rightarrow> error + real" where
  \<comment> \<open>\<open>math.log(x)\<close>: the natural logarithm, a domain error outside \<open>x > 0\<close>.\<close>
  "log_py x = (if x \<le> 0 then Inl ValueError else Inr (ln x))"

definition range_py :: "int \<Rightarrow> int \<Rightarrow> int list" where
  \<comment> \<open>\<open>range(a, b)\<close>: the integers \<open>a, ..., b - 1\<close>, empty when \<open>b \<le> a\<close>.\<close>
  "range_py a b = [a..b - 1]"

definition sum_py :: "real list \<Rightarrow> real" where
  \<comment> \<open>\<open>sum(xs)\<close>: starts from 0 and adds from the left.\<close>
  "sum_py xs = foldl (+) 0 xs"

subsection \<open>Probability recurrence\<close>

text \<open>
  \<^verbatim>\<open>
  def generate_probabilities(alpha, beta, x):
      p = [alpha / (alpha + beta)]
      for t in range(1, x):
          pt = (beta + t - 1) / (alpha + beta + t) * p[t-1]
          p.append(pt)
      return p
  \<close>
  The loop body evaluates the quotient before it reads \<open>p[t-1]\<close>.
\<close>

fun gp_loop :: "real \<Rightarrow> real \<Rightarrow> int list \<Rightarrow> real list \<Rightarrow> error + real list" where
  "gp_loop alpha beta [] p = Inr p"
| "gp_loop alpha beta (t # ts) p =
     (case div_py (beta + of_int t - 1) (alpha + beta + of_int t) of
        Inl e \<Rightarrow> Inl e
      | Inr q \<Rightarrow>
          (case getitem p (t - 1) of
             Inl e \<Rightarrow> Inl e
           | Inr prev \<Rightarrow> gp_loop alpha beta ts (p @ [q * prev])))"

definition generate_probabilities :: "real \<Rightarrow> real \<Rightarrow> int \<Rightarrow> error + real list" where
  "generate_probabilities alpha beta x =
     (case div_py alpha (alpha + beta) of
        Inl e \<Rightarrow> Inl e
      | Inr p0 \<Rightarrow> gp_loop alpha beta (range_py 1 x) [p0])"

text \<open>
  \<^verbatim>\<open>
  def probability(alpha, beta, t):
      if t == 0:
          return alpha / (alpha + beta)
      return (beta + t - 1) / (alpha + beta + t) * probability(alpha, beta, t-1)
  \<close>
  The recursion has no lower guard: a negative \<open>t\<close> descends until the interpreter's
  recursion limit stops it. The first argument is the number of nested calls the
  interpreter still allows; exhausting it is \<open>RecursionError\<close>.
\<close>

fun probability :: "nat \<Rightarrow> real \<Rightarrow> real \<Rightarrow> int \<Rightarrow> error + real" where
  "probability 0 alpha beta t = Inl RecursionError"
| "probability (Suc depth) alpha beta t =
     (if t = 0 then div_py alpha (alpha + beta)
      else
        (case div_py (beta + of_int t - 1) (alpha + beta + of_int t) of
           Inl e \<Rightarrow> Inl e
         | Inr q \<Rightarrow>
             (case probability depth alpha beta (t - 1) of
                Inl e \<Rightarrow> Inl e
              | Inr r \<Rightarrow> Inr (q * r))))"

subsection \<open>Survivor function\<close>

text \<open>
  \<^verbatim>\<open>
  def survivor(probabilities, t):
      s = 1 - probabilities[0]
      for x in range(1, t + 1):
          s = s - probabilities[x]
      return s
  \<close>
\<close>

fun survivor_loop :: "real list \<Rightarrow> int list \<Rightarrow> real \<Rightarrow> error + real" where
  "survivor_loop probabilities [] s = Inr s"
| "survivor_loop probabilities (x # xs) s =
     (case getitem probabilities x of
        Inl e \<Rightarrow> Inl e
      | Inr px \<Rightarrow> survivor_loop probabilities xs (s - px))"

definition survivor :: "real list \<Rightarrow> int \<Rightarrow> error + real" where
  "survivor probabilities t =
     (case getitem probabilities 0 of
        Inl e \<Rightarrow> Inl e
      | Inr p0 \<Rightarrow> survivor_loop probabilities (range_py 1 (t + 1)) (1 - p0))"

subsection \<open>Likelihood\<close>

text \<open>
  \<^verbatim>\<open>
  def survivor_rates(data):
      s = []
      for i, x in enumerate(data):
          if i == 0:
              s.append(1 - data[0])
          else:
              s.append(data[i-1] - data[i])
      return s
  \<close>
  The indices \<open>0\<close>, \<open>i - 1\<close> and \<open>i\<close> are positions of the list being enumerated,
  so no read is out of range.
\<close>

definition survivor_rates :: "real list \<Rightarrow> real list" where
  "survivor_rates data =
     map (\<lambda>i. if i = 0 then 1 - data ! 0 else data ! (i - 1) - data ! i) [0..<length data]"

text \<open>
  \<^verbatim>\<open>
  def log_likelihood(alpha, beta, data, survivors=None):
      if alpha <= 0 or beta <= 0:
          return -1000
      if survivors is None:
          survivors = survivor_rates(data)
      probabilities = generate_probabilities(alpha, beta, len(data))
      final_survivor_likelihood = survivor(probabilities, len(data) - 1)
      return sum([s * log(probabilities[t]) for t, s in enumerate(survivors)])
             + data[-1] * log(final_survivor_likelihood)
  \<close>
\<close>

fun ll_terms :: "real list \<Rightarrow> (nat \<times> real) list \<Rightarrow> error + real list" where
  "ll_terms probabilities [] = Inr []"
| "ll_terms probabilities ((t, s) # rest) =
     (case getitem probabilities (int t) of
        Inl e \<Rightarrow> Inl e
      | Inr pt \<Rightarrow>
          (case log_py pt of
             Inl e \<Rightarrow> Inl e
           | Inr l \<Rightarrow>
               (case ll_terms probabilities rest of
                  Inl e \<Rightarrow> Inl e
                | Inr ys \<Rightarrow> Inr (s * l # ys))))"

definition log_likelihood ::
  "real \<Rightarrow> real \<Rightarrow> real list \<Rightarrow> real list option \<Rightarrow> error + real" where
  "log_likelihood alpha beta data survivors =
     (if alpha \<le> 0 \<or> beta \<le> 0 then Inr (- 1000)
      else
        let survivors' = (case survivors of None \<Rightarrow> survivor_rates data | Some sv \<Rightarrow> sv)
        in
          (case generate_probabilities alpha beta (int (length data)) of
             Inl e \<Rightarrow> Inl e
           | Inr probabilities \<Rightarrow>
               (case survivor probabilities (int (length data) - 1) of
                  Inl e \<Rightarrow> Inl e
                | Inr final_survivor_likelihood \<Rightarrow>
                    (case ll_terms probabilities (enumerate 0 survivors') of
                       Inl e \<Rightarrow> Inl e
                     | Inr terms \<Rightarrow>
                         (case getitem data (- 1) of
                            Inl e \<Rightarrow> Inl e
                          | Inr dlast \<Rightarrow>
                              (case log_py final_survivor_likelihood of
                                 Inl e \<Rightarrow> Inl e
                               | Inr l \<Rightarrow> Inr (sum_py terms + dlast * l)))))))"

text \<open>
  \<^verbatim>\<open>
  def log_likelihood_multi_cohort(alpha, beta, data):
      if alpha <= 0 or beta <= 0:
          return -1000
      probabilities = generate_probabilities(alpha, beta, len(data[0]))
      cohorts = len(data)
      total = 0
      for i, cohort in enumerate(data):
          total += sum([(cohort[j]-cohort[j+1])*log(probabilities[j])
                        for j in range(len(cohort)-1)])
          total += cohort[-1] * log(survivor(probabilities, cohorts - i - 1))
      return total
  \<close>
  In the comprehension \<open>j\<close> and \<open>j + 1\<close> are below \<open>len(cohort)\<close>, so the two reads
  of \<open>cohort\<close> are in range; the read of \<open>probabilities\<close> need not be.
\<close>

fun mc_terms :: "real list \<Rightarrow> real list \<Rightarrow> nat list \<Rightarrow> error + real list" where
  "mc_terms probabilities cohort [] = Inr []"
| "mc_terms probabilities cohort (j # js) =
     (case getitem probabilities (int j) of
        Inl e \<Rightarrow> Inl e
      | Inr pj \<Rightarrow>
          (case log_py pj of
             Inl e \<Rightarrow> Inl e
           | Inr l \<Rightarrow>
               (case mc_terms probabilities cohort js of
                  Inl e \<Rightarrow> Inl e
                | Inr ys \<Rightarrow> Inr ((cohort ! j - cohort ! (j + 1)) * l # ys))))"

fun mc_loop ::
  "real list \<Rightarrow> int \<Rightarrow> (nat \<times> real list) list \<Rightarrow> real \<Rightarrow> error + real" where
  "mc_loop probabilities cohorts [] total' = Inr total'"
| "mc_loop probabilities cohorts ((i, cohort) # rest) total' =
     (case mc_terms probabilities cohort [0..<length cohort - 1] of
        Inl e \<Rightarrow> Inl e
      | Inr terms \<Rightarrow>
          (case getitem cohort (- 1) of
             Inl e \<Rightarrow> Inl e
           | Inr clast \<Rightarrow>
               (case survivor probabilities (cohorts - int i - 1) of
                  Inl e \<Rightarrow> Inl e
                | Inr sv \<Rightarrow>
                    (case log_py sv of
                       Inl e \<Rightarrow> Inl e
                     | Inr l \<Rightarrow>
                         mc_loop probabilities cohorts rest
                           (total' + sum_py terms + clast * l)))))"

definition log_likelihood_multi_cohort ::
  "real \<Rightarrow> real \<Rightarrow> real list list \<Rightarrow> error + real" where
  "log_likelihood_multi_cohort alpha beta data =
     (if alpha \<le> 0 \<or> beta \<le> 0 then Inr (- 1000)
      else
        (case getitem data 0 of
           Inl e \<Rightarrow> Inl e
         | Inr first \<Rightarrow>
             (case generate_probabilities alpha beta (int (length first)) of
                Inl e \<Rightarrow> Inl e
              | Inr probabilities \<Rightarrow>
                  mc_loop probabilities (int (length data)) (enumerate 0 data) 0)))"

subsection \<open>Prediction and residual lifetime\<close>

text \<open>
  \<^verbatim>\<open>
  def predicted_retention(alpha, beta, t):
      return (beta + t) / (alpha + beta + t)

  def predicted_survival(alpha, beta, x):
      s = [predicted_retention(alpha, beta, 0)]
      for t in range(1, x):
          s.append(predicted_retention(alpha, beta, t) * s[t-1])
      return s
  \<close>
\<close>

definition predicted_retention :: "real \<Rightarrow> real \<Rightarrow> real \<Rightarrow> error + real" where
  "predicted_retention alpha beta t = div_py (beta + t) (alpha + beta + t)"

fun ps_loop :: "real \<Rightarrow> real \<Rightarrow> int list \<Rightarrow> real list \<Rightarrow> error + real list" where
  "ps_loop alpha beta [] s = Inr s"
| "ps_loop alpha beta (t # ts) s =
     (case predicted_retention alpha beta (of_int t) of
        Inl e \<Rightarrow> Inl e
      | Inr r \<Rightarrow>
          (case getitem s (t - 1) of
             Inl e \<Rightarrow> Inl e
           | Inr prev \<Rightarrow> ps_loop alpha beta ts (s @ [r * prev])))"

definition predicted_survival :: "real \<Rightarrow> real \<Rightarrow> int \<Rightarrow> error + real list" where
  "predicted_survival alpha beta x =
     (case predicted_retention alpha beta 0 of
        Inl e \<Rightarrow> Inl e
      | Inr s0 \<Rightarrow> ps_loop alpha beta (range_py 1 x) [s0])"

text \<open>
  \<^verbatim>\<open>
  def derl(alpha, beta, d, n):
      return predicted_retention(alpha, beta, n)
             * hyp2f1(1, beta + n + 1, alpha + beta + n + 1, 1 / (1 + d))
  \<close>
  \<open>hyp2f1\<close> is SciPy's Gauss hypergeometric function; it is not part of the module
  and is a parameter of the model.
\<close>

definition derl ::
  "(real \<Rightarrow> real \<Rightarrow> real \<Rightarrow> real \<Rightarrow> real) \<Rightarrow> real \<Rightarrow> real \<Rightarrow> real \<Rightarrow> real \<Rightarrow> error + real" where
  "derl hyp2f1 alpha beta d n =
     (case predicted_retention alpha beta n of
        Inl e \<Rightarrow> Inl e
      | Inr r \<Rightarrow>
          (case div_py 1 (1 + d) of
             Inl e \<Rightarrow> Inl e
           | Inr z \<Rightarrow> Inr (r * hyp2f1 1 (beta + n + 1) (alpha + beta + n + 1) z)))"

text \<open>
  A stand-in for the external evaluator, used only to instantiate the parameter of
  \<open>derl\<close> at concrete inputs: the Gauss series cut after its linear term.
\<close>

definition hyp2f1_linear :: "real \<Rightarrow> real \<Rightarrow> real \<Rightarrow> real \<Rightarrow> real" where
  "hyp2f1_linear a b c z = 1 + a * b / c * z"

subsection \<open>Closed forms used in the proofs\<close>

text \<open>
  \<open>prob_at\<close> is the recurrence for \<open>P(T = t)\<close> on natural numbers and \<open>surv_prod n\<close>
  the product \<open>\<Prod>k<n. (beta + k) / (alpha + beta + k)\<close>, the closed form of the
  survivor value after \<open>n\<close> periods.
\<close>

primrec prob_at :: "real \<Rightarrow> real \<Rightarrow> nat \<Rightarrow> real" where
  "prob_at alpha beta 0 = alpha / (alpha + beta)"
| "prob_at alpha beta (Suc t) =
     (beta + real (Suc t) - 1) / (alpha + beta + real (Suc t)) * prob_at alpha beta t"

primrec surv_prod :: "real \<Rightarrow> real \<Rightarrow> nat \<Rightarrow> real" where
  "surv_prod alpha beta 0 = 1"
| "surv_prod alpha beta (Suc n) =
     surv_prod alpha beta n * ((beta + real n) / (alpha + beta + real n))"

section \<open>Auxiliary lemmas\<close>

subsection \<open>The probability loop\<close>

lemma gp_loop_append:
  "gp_loop alpha beta (ts @ us) p =
     (case gp_loop alpha beta ts p of Inl e \<Rightarrow> Inl e | Inr p' \<Rightarrow> gp_loop alpha beta us p')"
  by (induction ts arbitrary: p) (auto split: sum.splits)

lemma getitem_nat:
  "n < length xs \<Longrightarrow> getitem xs (int n) = Inr (xs ! n)"
  by (simp add: getitem_def)

lemma getitem_last:
  "xs \<noteq> [] \<Longrightarrow> getitem xs (- 1) = Inr (last xs)"
  by (cases xs rule: rev_cases) (simp_all add: getitem_def)

lemma range_py_nat: "range_py 1 x = [1..int (nat (x - 1))]"
  by (cases "1 \<le> x") (simp_all add: range_py_def)

lemma upto_int_Suc: "[1..int (Suc n)] = [1..int n] @ [int (Suc n)]"
  using upto_rec2 [of 1 "int (Suc n)"] by simp

lemma gp_loop_upto:
  assumes "0 < alpha" "0 < beta"
  shows "gp_loop alpha beta [1..int n] [prob_at alpha beta 0]
           = Inr (map (prob_at alpha beta) [0..<Suc n])"
proof (induction n)
  case 0
  show ?case by simp
next
  case (Suc n)
  have den: "alpha + beta + real (Suc n) \<noteq> 0" using assms by simp
  have g: "getitem (map (prob_at alpha beta) [0..<Suc n]) (int (Suc n) - 1)
             = Inr (prob_at alpha beta n)"
    using getitem_nat [of n "map (prob_at alpha beta) [0..<Suc n]"]
    by (simp del: upt_Suc add: nth_map_upt)
  show ?case
    using den g
    by (simp only: upto_int_Suc gp_loop_append Suc.IH)
       (simp add: div_py_def del: upt_Suc, simp)
qed

lemma generate_probabilities_eq:
  assumes "0 < alpha" "0 < beta"
  shows "generate_probabilities alpha beta x
           = Inr (map (prob_at alpha beta) [0..<Suc (nat (x - 1))])"
proof -
  have "alpha + beta \<noteq> 0" using assms by simp
  then show ?thesis
    using gp_loop_upto [OF assms, of "nat (x - 1)"]
    by (simp add: generate_probabilities_def div_py_def range_py_nat del: upt_Suc)
qed

lemma probability_eq:
  assumes "0 < alpha" "0 < beta"
  shows "t < depth \<Longrightarrow> probability depth alpha beta (int t) = Inr (prob_at alpha beta t)"
proof (induction t arbitrary: depth)
  case 0
  then obtain d where "depth = Suc d" by (cases depth) simp_all
  moreover have "alpha + beta \<noteq> 0" using assms by simp
  ultimately show ?case by (simp add: div_py_def)
next
  case (Suc t)
  then obtain d where d: "depth = Suc d" "t < d" by (cases depth) simp_all
  have nz: "alpha + beta + (1 + real t) \<noteq> 0"
    using assms by (simp add: add_pos_nonneg)
  have "probability d alpha beta (int t) = Inr (prob_at alpha beta t)"
    using d Suc.IH by simp
  then show ?case
    using nz by (simp add: d div_py_def)
qed


subsection \<open>The survivor loop and the closed forms\<close>

lemma survivor_loop_append:
  "survivor_loop ps (xs @ ys) s =
     (case survivor_loop ps xs s of Inl e \<Rightarrow> Inl e | Inr s' \<Rightarrow> survivor_loop ps ys s')"
  by (induction xs arbitrary: s) (auto split: sum.splits)

lemma survivor_loop_upto:
  "n < length ps \<Longrightarrow>
     survivor_loop ps [1..int n] s = Inr (s - (\<Sum>k<n. ps ! Suc k))"
proof (induction n)
  case 0
  show ?case by simp
next
  case (Suc n)
  then have ih: "survivor_loop ps [1..int n] s = Inr (s - (\<Sum>k<n. ps ! Suc k))"
    by simp
  have g: "getitem ps (1 + int n) = Inr (ps ! Suc n)"
    using getitem_nat [OF Suc.prems] by simp
  show ?case
    by (simp only: upto_int_Suc survivor_loop_append ih) (simp add: g)
qed

lemma range_py_nat': "range_py 1 (t + 1) = [1..int (nat t)]"
  using range_py_nat [of "t + 1"] by simp

lemma survivor_eq:
  assumes "nat t < length ps"
  shows "survivor ps t = Inr (1 - (\<Sum>k<Suc (nat t). ps ! k))"
proof -
  have "0 < length ps" using assms by (cases ps) simp_all
  then have g: "getitem ps 0 = Inr (ps ! 0)"
    using getitem_nat [of 0 ps] by simp
  have "(\<Sum>k<Suc (nat t). ps ! k) = ps ! 0 + (\<Sum>k<nat t. ps ! Suc k)"
    by (rule sum.lessThan_Suc_shift)
  then show ?thesis
    using survivor_loop_upto [OF assms, of "1 - ps ! 0"]
    by (simp add: survivor_def g range_py_nat' del: sum.lessThan_Suc)
qed

lemma surv_prod_pos: "0 < alpha \<Longrightarrow> 0 < beta \<Longrightarrow> 0 < surv_prod alpha beta n"
  by (induction n) (simp_all add: add_pos_nonneg)

lemma prob_at_closed:
  assumes "0 < alpha" "0 < beta"
  shows "prob_at alpha beta t = alpha / (alpha + beta + real t) * surv_prod alpha beta t"
proof (induction t)
  case 0
  show ?case by simp
next
  case (Suc t)
  have "alpha + beta + real t \<noteq> 0" "alpha + beta + real t + 1 \<noteq> 0"
    using assms by (simp_all add: add_pos_nonneg add_nonneg_pos)
  then show ?case
    by (simp add: Suc.IH field_simps)
qed

lemma prob_at_pos: "0 < alpha \<Longrightarrow> 0 < beta \<Longrightarrow> 0 < prob_at alpha beta t"
  by (simp add: prob_at_closed surv_prod_pos add_pos_nonneg)

lemma prob_at_sum:
  assumes "0 < alpha" "0 < beta"
  shows "1 - (\<Sum>k<n. prob_at alpha beta k) = surv_prod alpha beta n"
proof (induction n)
  case 0
  show ?case by simp
next
  case (Suc n)
  have nz: "alpha + beta + real n \<noteq> 0"
    using assms by (simp add: add_pos_nonneg)
  have "1 - (\<Sum>k<Suc n. prob_at alpha beta k)
          = surv_prod alpha beta n - prob_at alpha beta n"
    using Suc.IH by simp
  also have "\<dots> = surv_prod alpha beta n * (1 - alpha / (alpha + beta + real n))"
    by (simp add: prob_at_closed [OF assms] algebra_simps)
  also have "1 - alpha / (alpha + beta + real n) = (beta + real n) / (alpha + beta + real n)"
    using nz by (simp add: field_simps)
  finally show ?case by simp
qed

lemma sum_py_sum_list: "sum_py xs = sum_list xs"
proof -
  have "foldl (+) a xs = a + sum_list xs" for a :: real
    by (induction xs arbitrary: a) (simp_all add: add.assoc)
  then show ?thesis by (simp add: sum_py_def)
qed

lemma sum_list_map_upt: "sum_list (map f [0..<n]) = (\<Sum>k<n. f k)" for f :: "nat \<Rightarrow> real"
  by (simp add: interv_sum_list_conv_sum_set_nat atLeast0LessThan)

lemma sum_nth_map_upt:
  "n \<le> m \<Longrightarrow> (\<Sum>k<n. map f [0..<m] ! k) = (\<Sum>k<n. f k)" for f :: "nat \<Rightarrow> real"
  by (rule sum.cong) (simp_all del: upt_Suc)

subsection \<open>Survivor values of a generated sequence\<close>

lemma nth_prob_list:
  "k < m \<Longrightarrow> map (prob_at alpha beta) [0..<m] ! k = prob_at alpha beta k"
  by simp

lemma survivor_of_probabilities:
  assumes "0 < alpha" "0 < beta" "nat t < m"
  shows "survivor (map (prob_at alpha beta) [0..<m]) t = Inr (surv_prod alpha beta (Suc (nat t)))"
proof -
  let ?p = "map (prob_at alpha beta) [0..<m]"
  have "nat t < length ?p" using assms(3) by simp
  then have "survivor ?p t = Inr (1 - (\<Sum>k<Suc (nat t). ?p ! k))"
    by (rule survivor_eq)
  moreover have "(\<Sum>k<Suc (nat t). ?p ! k) = (\<Sum>k<Suc (nat t). prob_at alpha beta k)"
    using assms(3) by (intro sum_nth_map_upt) simp
  ultimately show ?thesis
    by (simp only: prob_at_sum [OF assms(1,2)])
qed


lemma prob_list_pos:
  assumes "0 < alpha" "0 < beta"
  shows "\<forall>t<length (map (prob_at alpha beta) [0..<m]). 0 < map (prob_at alpha beta) [0..<m] ! t"
  using prob_at_pos [OF assms] by simp

subsection \<open>The survival-curve loop\<close>

lemma ps_loop_append:
  "ps_loop alpha beta (ts @ us) s =
     (case ps_loop alpha beta ts s of Inl e \<Rightarrow> Inl e | Inr s' \<Rightarrow> ps_loop alpha beta us s')"
  by (induction ts arbitrary: s) (auto split: sum.splits)

lemma ps_loop_upto:
  assumes "0 < alpha" "0 < beta"
  shows "ps_loop alpha beta [1..int n] [surv_prod alpha beta (Suc 0)]
           = Inr (map (\<lambda>t. surv_prod alpha beta (Suc t)) [0..<Suc n])"
proof (induction n)
  case 0
  show ?case by simp
next
  case (Suc n)
  have den: "alpha + beta + (1 + real n) \<noteq> 0" using assms by (simp add: add_pos_nonneg)
  have g: "getitem (map (\<lambda>t. surv_prod alpha beta (Suc t)) [0..<Suc n]) (int (Suc n) - 1)
             = Inr (surv_prod alpha beta (Suc n))"
    using getitem_nat [of n "map (\<lambda>t. surv_prod alpha beta (Suc t)) [0..<Suc n]"]
    by (simp del: upt_Suc surv_prod.simps add: nth_map_upt)
  show ?case
    using den g
    by (simp only: upto_int_Suc ps_loop_append Suc.IH)
       (simp add: predicted_retention_def div_py_def del: upt_Suc, simp add: ac_simps)
qed

lemma predicted_survival_eq:
  assumes "0 < alpha" "0 < beta"
  shows "predicted_survival alpha beta x
           = Inr (map (\<lambda>t. surv_prod alpha beta (Suc t)) [0..<Suc (nat (x - 1))])"
proof -
  have "alpha + beta \<noteq> 0" using assms by simp
  then show ?thesis
    using ps_loop_upto [OF assms, of "nat (x - 1)"]
    by (simp add: predicted_survival_def predicted_retention_def div_py_def range_py_nat
             del: upt_Suc)
qed

subsection \<open>The terms of the likelihood sums\<close>

lemma ll_terms_eq:
  assumes "\<forall>t<length ps. 0 < ps ! t"
  shows "k + length xs \<le> length ps \<Longrightarrow>
     ll_terms ps (enumerate k xs) = Inr (map (\<lambda>i. xs ! i * ln (ps ! (k + i))) [0..<length xs])"
proof (induction xs arbitrary: k)
  case Nil
  show ?case by simp
next
  case (Cons x xs)
  have k: "k < length ps" using Cons.prems by simp
  then have g: "getitem ps (int k) = Inr (ps ! k)" by (rule getitem_nat)
  have l: "log_py (ps ! k) = Inr (ln (ps ! k))"
    using assms k by (auto simp: log_py_def not_le)
  have ih: "ll_terms ps (enumerate (Suc k) xs)
      = Inr (map (\<lambda>i. xs ! i * ln (ps ! (Suc k + i))) [0..<length xs])"
    using Cons.prems by (intro Cons.IH) simp
  have "map (\<lambda>i. (x # xs) ! i * ln (ps ! (k + i))) [0..<length (x # xs)]
      = x * ln (ps ! k) # map (\<lambda>i. xs ! i * ln (ps ! (Suc k + i))) [0..<length xs]"
    by (simp add: map_upt_Suc del: upt_Suc)
  then show ?case
    by (simp add: g l ih del: upt_Suc)
qed

lemma mc_terms_eq:
  assumes "\<forall>t<length ps. 0 < ps ! t"
  shows "\<forall>j\<in>set js. j < length ps \<Longrightarrow>
     mc_terms ps c js = Inr (map (\<lambda>j. (c ! j - c ! (j + 1)) * ln (ps ! j)) js)"
proof (induction js)
  case Nil
  show ?case by simp
next
  case (Cons j js)
  have j: "j < length ps" using Cons.prems by simp
  then have g: "getitem ps (int j) = Inr (ps ! j)" by (rule getitem_nat)
  have l: "log_py (ps ! j) = Inr (ln (ps ! j))"
    using assms j by (auto simp: log_py_def not_le)
  have "mc_terms ps c js = Inr (map (\<lambda>j. (c ! j - c ! (j + 1)) * ln (ps ! j)) js)"
    using Cons.prems by (intro Cons.IH) simp
  then show ?case by (simp add: g l)
qed

subsection \<open>The two likelihood functions in closed form\<close>

lemma survivor_rates_nth:
  "t < length data \<Longrightarrow>
     survivor_rates data ! t = (if t = 0 then 1 - data ! 0 else data ! (t - 1) - data ! t)"
  by (simp add: survivor_rates_def)

lemma length_survivor_rates: "length (survivor_rates data) = length data"
  by (simp add: survivor_rates_def)

lemma log_likelihood_eq:
  assumes "0 < alpha" "0 < beta" "obs \<noteq> []"
  shows "log_likelihood alpha beta obs None =
     Inr ((\<Sum>t<length obs. survivor_rates obs ! t * ln (prob_at alpha beta t))
          + last obs * ln (surv_prod alpha beta (length obs)))"
proof -
  define n where "n = length obs"
  have n: "0 < n" using assms(3) by (simp add: n_def)
  let ?p = "map (prob_at alpha beta) [0..<n]"
  have m: "Suc (nat (int n - 1)) = n" using n by simp
  have gen: "generate_probabilities alpha beta (int n) = Inr ?p"
    using generate_probabilities_eq [OF assms(1,2), of "int n"] by (simp only: m)
  have "nat (int n - 1) < n" using n by simp
  then have "survivor ?p (int n - 1) = Inr (surv_prod alpha beta (Suc (nat (int n - 1))))"
    by (rule survivor_of_probabilities [OF assms(1,2)])
  then have sv: "survivor ?p (int n - 1) = Inr (surv_prod alpha beta n)"
    by (simp only: m)
  have "0 + length (survivor_rates obs) \<le> length ?p"
    by (simp add: length_survivor_rates n_def)
  then have "ll_terms ?p (enumerate 0 (survivor_rates obs))
      = Inr (map (\<lambda>i. survivor_rates obs ! i * ln (?p ! (0 + i)))
               [0..<length (survivor_rates obs)])"
    by (rule ll_terms_eq [OF prob_list_pos [OF assms(1,2)]])
  moreover have "map (\<lambda>i. survivor_rates obs ! i * ln (?p ! (0 + i))) [0..<n]
      = map (\<lambda>i. survivor_rates obs ! i * ln (prob_at alpha beta i)) [0..<n]"
    by (rule map_cong) simp_all
  ultimately have terms: "ll_terms ?p (enumerate 0 (survivor_rates obs))
      = Inr (map (\<lambda>i. survivor_rates obs ! i * ln (prob_at alpha beta i)) [0..<n])"
    by (simp only: length_survivor_rates n_def [symmetric])
  have sm: "sum_py (map (\<lambda>i. survivor_rates obs ! i * ln (prob_at alpha beta i)) [0..<n])
      = (\<Sum>t<n. survivor_rates obs ! t * ln (prob_at alpha beta t))"
    by (simp only: sum_py_sum_list sum_list_map_upt)
  have lst: "getitem obs (- 1) = Inr (last obs)"
    using assms(3) by (rule getitem_last)
  have lg: "log_py (surv_prod alpha beta n) = Inr (ln (surv_prod alpha beta n))"
    using surv_prod_pos [OF assms(1,2), of n] by (simp add: log_py_def)
  have guard: "\<not> (alpha \<le> 0 \<or> beta \<le> 0)" using assms(1,2) by simp
  show ?thesis
    unfolding log_likelihood_def n_def [symmetric]
    by (simp only: guard if_False Let_def option.case gen sv terms lst lg sm sum.case)
qed

lemma mc_terms_sum:
  assumes "0 < alpha" "0 < beta" "l \<le> m"
  shows "\<exists>terms. mc_terms (map (prob_at alpha beta) [0..<m]) c [0..<l] = Inr terms \<and>
           sum_py terms = (\<Sum>j<l. (c ! j - c ! (j + 1)) * ln (prob_at alpha beta j))"
proof -
  let ?p = "map (prob_at alpha beta) [0..<m]"
  have "\<forall>j\<in>set [0..<l]. j < length ?p" using assms(3) by simp
  then have t: "mc_terms ?p c [0..<l]
      = Inr (map (\<lambda>j. (c ! j - c ! (j + 1)) * ln (?p ! j)) [0..<l])"
    by (rule mc_terms_eq [OF prob_list_pos [OF assms(1,2)]])
  have "sum_py (map (\<lambda>j. (c ! j - c ! (j + 1)) * ln (?p ! j)) [0..<l])
      = (\<Sum>j<l. (c ! j - c ! (j + 1)) * ln (?p ! j))"
    by (simp only: sum_py_sum_list sum_list_map_upt)
  also have "\<dots> = (\<Sum>j<l. (c ! j - c ! (j + 1)) * ln (prob_at alpha beta j))"
    using assms(3) by (intro sum.cong) simp_all
  finally show ?thesis using t by blast
qed

lemma mc_loop_eq:
  assumes "0 < alpha" "0 < beta" "C \<le> m"
  shows "\<forall>c\<in>set cs. c \<noteq> [] \<and> length c \<le> m \<Longrightarrow> k + length cs \<le> C \<Longrightarrow>
     mc_loop (map (prob_at alpha beta) [0..<m]) (int C) (enumerate k cs) acc =
       Inr (acc + (\<Sum>i<length cs.
              (\<Sum>j<length (cs ! i) - 1.
                  (cs ! i ! j - cs ! i ! (j + 1)) * ln (prob_at alpha beta j))
              + last (cs ! i) * ln (surv_prod alpha beta (C - (k + i)))))"
proof (induction cs arbitrary: k acc)
  case Nil
  show ?case by simp
next
  case (Cons c cs)
  let ?p = "map (prob_at alpha beta) [0..<m]"
  have c: "c \<noteq> []" "length c - 1 \<le> m" and k: "k < C"
    using Cons.prems by auto
  obtain terms where terms: "mc_terms ?p c [0..<length c - 1] = Inr terms"
      "sum_py terms = (\<Sum>j<length c - 1. (c ! j - c ! (j + 1)) * ln (prob_at alpha beta j))"
    using mc_terms_sum [OF assms(1,2) c(2)] by blast
  have lst: "getitem c (- 1) = Inr (last c)" using c(1) by (rule getitem_last)
  have idx: "Suc (nat (int C - int k - 1)) = C - k" using k by simp
  have "nat (int C - int k - 1) < m" using k assms(3) by simp
  then have "survivor ?p (int C - int k - 1)
      = Inr (surv_prod alpha beta (Suc (nat (int C - int k - 1))))"
    by (rule survivor_of_probabilities [OF assms(1,2)])
  then have sv: "survivor ?p (int C - int k - 1) = Inr (surv_prod alpha beta (C - k))"
    by (simp only: idx)
  have lg: "log_py (surv_prod alpha beta (C - k)) = Inr (ln (surv_prod alpha beta (C - k)))"
    using surv_prod_pos [OF assms(1,2), of "C - k"] by (simp add: log_py_def)
  have ih: "mc_loop ?p (int C) (enumerate (Suc k) cs) acc' =
       Inr (acc' + (\<Sum>i<length cs.
              (\<Sum>j<length (cs ! i) - 1.
                  (cs ! i ! j - cs ! i ! (j + 1)) * ln (prob_at alpha beta j))
              + last (cs ! i) * ln (surv_prod alpha beta (C - (Suc k + i)))))" for acc'
    using Cons.prems by (intro Cons.IH) simp_all
  have step: "mc_loop ?p (int C) (enumerate k (c # cs)) acc =
      mc_loop ?p (int C) (enumerate (Suc k) cs)
        (acc + sum_py terms + last c * ln (surv_prod alpha beta (C - k)))"
    by (simp only: enumerate_simps mc_loop.simps terms(1) lst sv lg sum.case)
  show ?case
    unfolding step ih terms(2)
    by (simp add: sum.lessThan_Suc_shift del: sum.lessThan_Suc)
qed

section \<open>Properties of the module\<close>

text \<open>
  C1. For \<open>alpha > 0\<close>, \<open>beta > 0\<close> and a horizon \<open>n \<ge> 1\<close>,
  \<open>generate_probabilities(alpha, beta, n)\<close> returns a list of length \<open>n\<close> whose
  element 0 is \<open>alpha / (alpha + beta)\<close> and whose element \<open>t\<close>, for
  \<open>1 \<le> t < n\<close>, is \<open>(beta + t - 1) / (alpha + beta + t)\<close> times element \<open>t - 1\<close>.
\<close>

theorem generate_probabilities_recurrence:
  assumes "0 < alpha" "0 < beta" "1 \<le> n"
  shows "\<exists>p. generate_probabilities alpha beta n = Inr p \<and> int (length p) = n \<and>
           p ! 0 = alpha / (alpha + beta) \<and>
           (\<forall>t. 1 \<le> t \<and> t < n \<longrightarrow>
              p ! nat t = (beta + of_int t - 1) / (alpha + beta + of_int t) * p ! nat (t - 1))"
proof -
  let ?p = "map (prob_at alpha beta) [0..<Suc (nat (n - 1))]"
  have len: "int (length ?p) = n" using assms(3) by simp
  have rec_nat: "?p ! Suc k
      = (beta + real (Suc k) - 1) / (alpha + beta + real (Suc k)) * ?p ! k"
    if "Suc k < Suc (nat (n - 1))" for k
  proof -
    have "?p ! Suc k = prob_at alpha beta (Suc k)" "?p ! k = prob_at alpha beta k"
      using that by (simp_all del: upt_Suc)
    then show ?thesis by (simp del: upt_Suc)
  qed
  have rec: "?p ! nat t = (beta + of_int t - 1) / (alpha + beta + of_int t) * ?p ! nat (t - 1)"
    if "1 \<le> t" "t < n" for t
  proof -
    define k where "k = nat (t - 1)"
    have k: "nat t = Suc k" "nat (t - 1) = k" and r: "(of_int t :: real) = real (Suc k)"
      using that(1) by (simp_all add: k_def)
    have "Suc k < Suc (nat (n - 1))" using that by (simp add: k_def)
    then show ?thesis unfolding k r by (rule rec_nat)
  qed
  have p0: "?p ! 0 = alpha / (alpha + beta)"
    using nth_map_upt [of 0 "Suc (nat (n - 1))" 0 "prob_at alpha beta"] by simp
  show ?thesis
    using generate_probabilities_eq [OF assms(1,2), of n] len p0 rec by blast
qed

theorem generate_probabilities_recurrence_witness:
  "(0::real) < 1 \<and> (1::int) \<le> 3 \<and>
   (\<exists>p. generate_probabilities 1 1 3 = Inr p \<and> int (length p) = 3 \<and> p ! 0 = 1 / (1 + 1) \<and>
      p ! nat 2 = (1 + of_int 2 - 1) / (1 + 1 + of_int 2) * p ! nat (2 - 1))"
proof -
  have h: "(0::real) < 1" "(1::int) \<le> 3" by simp_all
  from generate_probabilities_recurrence [OF h(1) h(1) h(2)]
  obtain p where p: "generate_probabilities 1 1 3 = Inr p" "int (length p) = 3"
      "p ! 0 = 1 / (1 + 1)"
      "\<forall>t. 1 \<le> t \<and> t < 3 \<longrightarrow>
         p ! nat t = (1 + of_int t - 1) / (1 + 1 + of_int t) * p ! nat (t - 1)"
    by blast
  from p(4) have "p ! nat 2 = (1 + of_int 2 - 1) / (1 + 1 + of_int 2) * p ! nat (2 - 1)"
    by (rule allE [of _ 2]) simp
  with p(1,2,3) h show ?thesis by blast
qed

text \<open>
  C2, as the spec states it: the tail term of \<open>log_likelihood\<close> is
  \<open>obs[n-1] * log(S(n-2))\<close>. The code calls \<open>survivor(probabilities, len(data) - 1)\<close>,
  so the tail uses \<open>S(n-1)\<close>. With \<open>alpha = beta = 1\<close> and \<open>obs = [1/2, 1/4]\<close>:
  \<open>P = [1/2, 1/6]\<close>, \<open>S(0) = 1 - 1/2\<close>, \<open>S(1) = 1 - (1/2 + 1/6)\<close>; the code returns
  the sum with \<open>log(S(1))\<close>, which differs from the sum with \<open>log(S(0))\<close>.
\<close>

theorem log_likelihood_tail_counterexample:
  "log_likelihood 1 1 [1 / 2, 1 / 4] None =
     Inr ((1 - 1 / 2) * ln (1 / 2) + (1 / 2 - 1 / 4) * ln (1 / 6) + 1 / 4 * ln (1 - (1 / 2 + 1 / 6))) \<and>
   log_likelihood 1 1 [1 / 2, 1 / 4] None \<noteq>
     Inr ((1 - 1 / 2) * ln (1 / 2) + (1 / 2 - 1 / 4) * ln (1 / 6) + 1 / 4 * ln (1 - 1 / 2))"
proof -
  have ev: "log_likelihood 1 1 [1 / 2, 1 / 4] None =
     Inr ((1 - 1 / 2) * ln (1 / 2) + (1 / 2 - 1 / 4) * ln (1 / 6) + 1 / 4 * ln (1 / 3))"
    by (simp add: log_likelihood_def generate_probabilities_def survivor_def survivor_rates_def
          range_py_def div_py_def getitem_def log_py_def sum_py_def upt_rec ln_div)
  have "ln (1 / 3 :: real) \<noteq> ln (1 / 2)"
    by (simp add: ln_div)
  then show ?thesis by (simp add: ev)
qed

text \<open>
  C2, amended. For \<open>alpha, beta > 0\<close> and a series \<open>obs\<close> of length \<open>n \<ge> 2\<close>
  with values in \<open>(0, 1]\<close>, \<open>log_likelihood(alpha, beta, obs)\<close> is
  \<open>\<Sum>t rate[t] * log(P(T=t)) + obs[n-1] * log(S(n-1))\<close>, with \<open>rate[0] = 1 - obs[0]\<close>,
  \<open>rate[t] = obs[t-1] - obs[t]\<close>, \<open>P\<close> the generated sequence of length \<open>n\<close> and
  \<open>S(n-1) = 1 - \<Sum>k<n. P(T=k)\<close>.
\<close>

theorem log_likelihood_value:
  assumes "0 < alpha" "0 < beta" "2 \<le> length obs" "\<forall>x\<in>set obs. 0 < x \<and> x \<le> 1"
  shows "\<exists>p. generate_probabilities alpha beta (int (length obs)) = Inr p \<and>
           log_likelihood alpha beta obs None =
             Inr ((\<Sum>t<length obs.
                     (if t = 0 then 1 - obs ! 0 else obs ! (t - 1) - obs ! t) * ln (p ! t))
                  + obs ! (length obs - 1) * ln (1 - (\<Sum>k<length obs. p ! k)))"
proof -
  define n where "n = length obs"
  have ne: "obs \<noteq> []" using assms(3) by auto
  let ?p = "map (prob_at alpha beta) [0..<n]"
  have "Suc (nat (int n - 1)) = n" using assms(3) by (simp add: n_def)
  then have gen: "generate_probabilities alpha beta (int n) = Inr ?p"
    using generate_probabilities_eq [OF assms(1,2), of "int n"] by simp
  have "(\<Sum>t<n. survivor_rates obs ! t * ln (prob_at alpha beta t))
      = (\<Sum>t<n. (if t = 0 then 1 - obs ! 0 else obs ! (t - 1) - obs ! t) * ln (?p ! t))"
    by (rule sum.cong) (simp_all add: survivor_rates_nth n_def)
  moreover have "(\<Sum>k<n. ?p ! k) = (\<Sum>k<n. prob_at alpha beta k)"
    by (rule sum_nth_map_upt) simp
  then have "surv_prod alpha beta n = 1 - (\<Sum>k<n. ?p ! k)"
    using prob_at_sum [OF assms(1,2), of n] by simp
  moreover have "last obs = obs ! (n - 1)"
    using ne by (simp add: last_conv_nth n_def)
  ultimately have "log_likelihood alpha beta obs None =
      Inr ((\<Sum>t<n. (if t = 0 then 1 - obs ! 0 else obs ! (t - 1) - obs ! t) * ln (?p ! t))
           + obs ! (n - 1) * ln (1 - (\<Sum>k<n. ?p ! k)))"
    using log_likelihood_eq [OF assms(1,2) ne] by (simp only: n_def [symmetric])
  with gen show ?thesis unfolding n_def [symmetric] by blast
qed

theorem log_likelihood_value_witness:
  "(0::real) < 1 \<and> (2::nat) \<le> length [1 / 2, 1 / 4 :: real] \<and>
   ((0::real) < 1 / 2 \<and> (1 / 2 :: real) \<le> 1) \<and> ((0::real) < 1 / 4 \<and> (1 / 4 :: real) \<le> 1) \<and>
   (\<exists>p. generate_probabilities 1 1 (int (length [1 / 2, 1 / 4 :: real])) = Inr p \<and>
      log_likelihood 1 1 [1 / 2, 1 / 4] None =
        Inr ((1 - 1 / 2) * ln (p ! 0) + (1 / 2 - 1 / 4) * ln (p ! 1)
             + 1 / 4 * ln (1 - (p ! 0 + p ! 1))))"
  using log_likelihood_value [of 1 1 "[1 / 2, 1 / 4]"]
  by (simp add: numeral_2_eq_2)

text \<open>
  C3, as the spec states it: the probability sequence is sized to the longest cohort and
  the sum is returned for every non-empty dataset of non-empty cohorts. The code sizes the
  sequence by \<open>len(data[0])\<close>; when a later cohort is longer, \<open>probabilities[j]\<close> is
  read past the end. In the first dataset the first cohort has 2 entries and the second 4.
  In the second dataset there are more cohorts than entries in the first cohort, and
  \<open>survivor(probabilities, cohorts - 1)\<close> reads past the end.
\<close>

theorem log_likelihood_multi_cohort_counterexample:
  "log_likelihood_multi_cohort 1 1 [[3, 2], [4, 3, 2, 1]] = Inl IndexError \<and>
   log_likelihood_multi_cohort 1 1 [[1], [1]] = Inl IndexError"
  by (simp add: log_likelihood_multi_cohort_def generate_probabilities_def survivor_def
        range_py_def div_py_def getitem_def log_py_def sum_py_def upt_rec)

text \<open>
  C3, amended. For \<open>alpha, beta > 0\<close> and a non-empty dataset of non-empty cohorts in
  which no cohort is longer than the first and the number of cohorts is at most the
  length of the first, \<open>log_likelihood_multi_cohort\<close> uses one probability sequence
  \<open>P\<close>, of length \<open>len(data[0])\<close>, and returns the sum over cohorts \<open>i\<close> of
  \<open>\<Sum>j \<le> L_i - 2. (count[j] - count[j+1]) * log(P(T=j))\<close> plus
  \<open>count[L_i - 1] * log(S(cohorts_total - i - 1))\<close>, where
  \<open>S(t) = 1 - \<Sum>k \<le> t. P(T=k)\<close>.
\<close>

theorem log_likelihood_multi_cohort_value:
  assumes "0 < alpha" "0 < beta" "data \<noteq> []"
    and "\<forall>c\<in>set data. c \<noteq> [] \<and> length c \<le> length (data ! 0)"
    and "length data \<le> length (data ! 0)"
  shows "\<exists>p. generate_probabilities alpha beta (int (length (data ! 0))) = Inr p \<and>
           length p = length (data ! 0) \<and>
           log_likelihood_multi_cohort alpha beta data =
             Inr (\<Sum>i<length data.
                    (\<Sum>j<length (data ! i) - 1.
                        (data ! i ! j - data ! i ! (j + 1)) * ln (p ! j))
                    + data ! i ! (length (data ! i) - 1)
                      * ln (1 - (\<Sum>k<length data - i. p ! k)))"
proof -
  define m where "m = length (data ! 0)"
  define C where "C = length data"
  let ?p = "map (prob_at alpha beta) [0..<m]"
  have C: "0 < C" using assms(3) by (simp add: C_def)
  have coh: "data ! i \<noteq> []" "length (data ! i) \<le> m" if "i < C" for i
    using assms(4) that by (simp_all add: C_def m_def)
  have m: "0 < m" using coh(1) [OF C] by (simp add: m_def)
  then have "Suc (nat (int m - 1)) = m" by simp
  then have gen: "generate_probabilities alpha beta (int m) = Inr ?p"
    using generate_probabilities_eq [OF assms(1,2), of "int m"] by simp
  have first: "getitem data 0 = Inr (data ! 0)"
    using getitem_nat [of 0 data] C by (simp add: C_def)
  have "C \<le> m" using assms(5) by (simp add: C_def m_def)
  moreover have "\<forall>c\<in>set data. c \<noteq> [] \<and> length c \<le> m"
    using assms(4) by (simp add: m_def)
  moreover have "0 + length data \<le> C" by (simp add: C_def)
  ultimately have loop: "mc_loop ?p (int C) (enumerate 0 data) 0 =
       Inr (0 + (\<Sum>i<length data.
              (\<Sum>j<length (data ! i) - 1.
                  (data ! i ! j - data ! i ! (j + 1)) * ln (prob_at alpha beta j))
              + last (data ! i) * ln (surv_prod alpha beta (C - (0 + i)))))"
    by (rule mc_loop_eq [OF assms(1,2)])
  have summand: "(\<Sum>j<length (data ! i) - 1.
                  (data ! i ! j - data ! i ! (j + 1)) * ln (prob_at alpha beta j))
              + last (data ! i) * ln (surv_prod alpha beta (C - (0 + i)))
      = (\<Sum>j<length (data ! i) - 1. (data ! i ! j - data ! i ! (j + 1)) * ln (?p ! j))
              + data ! i ! (length (data ! i) - 1) * ln (1 - (\<Sum>k<C - i. ?p ! k))"
    if "i < C" for i
  proof -
    have "(\<Sum>j<length (data ! i) - 1.
              (data ! i ! j - data ! i ! (j + 1)) * ln (prob_at alpha beta j))
        = (\<Sum>j<length (data ! i) - 1. (data ! i ! j - data ! i ! (j + 1)) * ln (?p ! j))"
      using coh(2) [OF that] by (intro sum.cong) simp_all
    moreover have "last (data ! i) = data ! i ! (length (data ! i) - 1)"
      using coh(1) [OF that] by (rule last_conv_nth)
    moreover have "(\<Sum>k<C - i. ?p ! k) = (\<Sum>k<C - i. prob_at alpha beta k)"
      using \<open>C \<le> m\<close> by (intro sum_nth_map_upt) simp
    then have "surv_prod alpha beta (C - (0 + i)) = 1 - (\<Sum>k<C - i. ?p ! k)"
      using prob_at_sum [OF assms(1,2), of "C - i"] by simp
    ultimately show ?thesis by (simp only:)
  qed
  have "(\<Sum>i<C.
              (\<Sum>j<length (data ! i) - 1.
                  (data ! i ! j - data ! i ! (j + 1)) * ln (prob_at alpha beta j))
              + last (data ! i) * ln (surv_prod alpha beta (C - (0 + i))))
      = (\<Sum>i<C. (\<Sum>j<length (data ! i) - 1. (data ! i ! j - data ! i ! (j + 1)) * ln (?p ! j))
              + data ! i ! (length (data ! i) - 1) * ln (1 - (\<Sum>k<C - i. ?p ! k)))"
    by (rule sum.cong) (simp_all only: summand lessThan_iff)
  then have loop': "mc_loop ?p (int C) (enumerate 0 data) 0 =
       Inr (\<Sum>i<C. (\<Sum>j<length (data ! i) - 1. (data ! i ! j - data ! i ! (j + 1)) * ln (?p ! j))
              + data ! i ! (length (data ! i) - 1) * ln (1 - (\<Sum>k<C - i. ?p ! k)))"
    using loop by (simp only: C_def [symmetric] add_0)
  have guard: "\<not> (alpha \<le> 0 \<or> beta \<le> 0)" using assms(1,2) by simp
  have "log_likelihood_multi_cohort alpha beta data =
       Inr (\<Sum>i<C. (\<Sum>j<length (data ! i) - 1. (data ! i ! j - data ! i ! (j + 1)) * ln (?p ! j))
              + data ! i ! (length (data ! i) - 1) * ln (1 - (\<Sum>k<C - i. ?p ! k)))"
    unfolding log_likelihood_multi_cohort_def
    by (simp only: guard if_False first sum.case m_def [symmetric] gen C_def [symmetric] loop')
  moreover have "length ?p = m" by simp
  ultimately show ?thesis
    using gen unfolding m_def [symmetric] C_def [symmetric] by blast
qed

theorem log_likelihood_multi_cohort_value_witness:
  "(0::real) < 1 \<and> [[3, 2], [3 :: real]] \<noteq> [] \<and>
   ([3, 2 :: real] \<noteq> [] \<and> length [3, 2 :: real] \<le> length ([[3, 2], [3 :: real]] ! 0)) \<and>
   ([3 :: real] \<noteq> [] \<and> length [3 :: real] \<le> length ([[3, 2], [3 :: real]] ! 0)) \<and>
   length [[3, 2], [3 :: real]] \<le> length ([[3, 2], [3 :: real]] ! 0) \<and>
   (\<exists>p. generate_probabilities 1 1 2 = Inr p \<and> length p = 2 \<and>
      log_likelihood_multi_cohort 1 1 [[3, 2], [3]] =
        Inr ((3 - 2) * ln (p ! 0) + 2 * ln (1 - (p ! 0 + p ! 1)) + 3 * ln (1 - p ! 0)))"
  using log_likelihood_multi_cohort_value [of 1 1 "[[3, 2], [3]]"]
  by (simp add: numeral_2_eq_2)

text \<open>
  C5. Whenever \<open>alpha \<le> 0\<close> or \<open>beta \<le> 0\<close>, \<open>log_likelihood\<close> and
  \<open>log_likelihood_multi_cohort\<close> return the same fixed value \<open>-1000\<close>, for every data
  series and every optional list of precomputed survivors: no error is raised and the
  result does not depend on the data.
\<close>

theorem likelihood_penalty:
  assumes "alpha \<le> 0 \<or> beta \<le> 0"
  shows "log_likelihood alpha beta data survivors = Inr (- 1000) \<and>
         log_likelihood_multi_cohort alpha beta cohort_data = Inr (- 1000)"
  using assms by (simp add: log_likelihood_def log_likelihood_multi_cohort_def)

theorem likelihood_penalty_witness:
  "((0::real) \<le> 0 \<or> (1::real) \<le> 0) \<and>
   log_likelihood 0 1 [] (Some [1, 2, 3]) = Inr (- 1000) \<and>
   log_likelihood_multi_cohort 0 1 [] = Inr (- 1000)"
  using likelihood_penalty [of 0 1 "[]" "Some [1, 2, 3]" "[]"] by simp

text \<open>
  C6, as the spec states it: with \<open>alpha \<le> 0\<close> or \<open>beta \<le> 0\<close>,
  \<open>predicted_retention\<close> and \<open>derl\<close> raise a parameter-domain error. The code has
  no such check; at \<open>alpha = -1\<close>, \<open>beta = 1\<close> both return numbers.
\<close>

theorem prediction_no_domain_error_counterexample:
  "predicted_retention (- 1) 1 1 = Inr 2 \<and>
   derl hyp2f1_linear (- 1) 1 1 1 = Inr (7 / 2)"
  by (simp add: predicted_retention_def derl_def div_py_def hyp2f1_linear_def)

text \<open>
  C6, amended. Whenever \<open>alpha \<le> 0\<close> or \<open>beta \<le> 0\<close>, the two functions check
  nothing: \<open>predicted_retention(alpha, beta, t)\<close> is the number
  \<open>(beta + t) / (alpha + beta + t)\<close> unless \<open>alpha + beta + t = 0\<close>, where the division
  raises \<open>ZeroDivisionError\<close>; \<open>derl(alpha, beta, d, n)\<close> is the retention at \<open>n\<close>
  times the hypergeometric value unless \<open>alpha + beta + n = 0\<close> or \<open>d = -1\<close>, where a
  division raises \<open>ZeroDivisionError\<close>.
\<close>

theorem prediction_unchecked:
  assumes "alpha \<le> 0 \<or> beta \<le> 0"
  shows "predicted_retention alpha beta t =
           (if alpha + beta + t = 0 then Inl ZeroDivisionError
            else Inr ((beta + t) / (alpha + beta + t))) \<and>
         derl hyp2f1 alpha beta d n =
           (if alpha + beta + n = 0 \<or> 1 + d = 0 then Inl ZeroDivisionError
            else Inr ((beta + n) / (alpha + beta + n)
                      * hyp2f1 1 (beta + n + 1) (alpha + beta + n + 1) (1 / (1 + d))))"
  by (simp add: predicted_retention_def derl_def div_py_def)

theorem prediction_unchecked_witness:
  "((- 1 :: real) \<le> 0 \<or> (1::real) \<le> 0) \<and>
   predicted_retention (- 1) 1 0 = Inl ZeroDivisionError \<and>
   predicted_retention (- 1) 1 1 = Inr 2 \<and>
   derl hyp2f1_linear (- 1) 1 1 1 = Inr (2 * hyp2f1_linear 1 3 2 (1 / 2))"
  using prediction_unchecked [of "- 1" 1 0 hyp2f1_linear 1 1]
    prediction_unchecked [of "- 1" 1 1 hyp2f1_linear 1 1]
  by simp

text \<open>
  C7, as the spec states it: \<open>derl\<close> rejects a discount rate \<open>d \<le> 0\<close> before it
  delegates. The code does not: at \<open>d = -1/2\<close> it returns a number.
\<close>

theorem derl_accepts_nonpositive_discount_counterexample:
  "derl hyp2f1_linear 1 1 (- 1 / 2) 0 = Inr (7 / 6)"
  by (simp add: predicted_retention_def derl_def div_py_def hyp2f1_linear_def)

text \<open>
  C7, amended. For \<open>alpha > 0\<close>, \<open>beta > 0\<close> and \<open>n \<ge> 0\<close>, \<open>derl\<close> does not
  validate \<open>d\<close>: for every \<open>d\<close> other than \<open>-1\<close> it returns
  \<open>predicted_retention(alpha, beta, n)\<close> times the evaluator applied to
  \<open>(1, beta + n + 1, alpha + beta + n + 1, 1 / (1 + d))\<close>, and for \<open>d = -1\<close> the
  division \<open>1 / (1 + d)\<close> raises \<open>ZeroDivisionError\<close>.
\<close>

theorem derl_value:
  assumes "0 < alpha" "0 < beta" "0 \<le> n"
  shows "\<exists>r. predicted_retention alpha beta n = Inr r \<and>
           derl hyp2f1 alpha beta d n =
             (if d = - 1 then Inl ZeroDivisionError
              else Inr (r * hyp2f1 1 (beta + n + 1) (alpha + beta + n + 1) (1 / (1 + d))))"
proof -
  have "alpha + beta + n \<noteq> 0" using assms by simp
  moreover have "1 + d = 0 \<longleftrightarrow> d = - 1" by auto
  ultimately show ?thesis
    by (simp add: predicted_retention_def derl_def div_py_def)
qed

theorem derl_value_witness:
  "(0::real) < 1 \<and> (0::real) \<le> 0 \<and>
   (\<exists>r. predicted_retention 1 1 0 = Inr r \<and>
      derl hyp2f1_linear 1 1 (- 1 / 2) 0 = Inr (r * hyp2f1_linear 1 (1 + 0 + 1) (1 + 1 + 0 + 1) (1 / (1 + - 1 / 2))))"
  using derl_value [of 1 1 0 hyp2f1_linear "- 1 / 2"] by simp




text \<open>
  C9. For \<open>alpha, beta > 0\<close>, \<open>n \<ge> 1\<close> and \<open>0 \<le> t < n\<close>, the recursive
  \<open>probability(alpha, beta, t)\<close> returns element \<open>t\<close> of
  \<open>generate_probabilities(alpha, beta, n)\<close>, provided the interpreter allows the
  \<open>t + 1\<close> nested calls the recursion needs.
\<close>

theorem probability_agrees_with_generate_probabilities:
  assumes "0 < alpha" "0 < beta" "1 \<le> n" "0 \<le> t" "t < n" "nat t < depth"
  shows "\<exists>p. generate_probabilities alpha beta n = Inr p \<and>
           probability depth alpha beta t = Inr (p ! nat t)"
proof -
  have "nat t < Suc (nat (n - 1))" using assms(4,5) by simp
  then have "map (prob_at alpha beta) [0..<Suc (nat (n - 1))] ! nat t = prob_at alpha beta (nat t)"
    by (rule nth_prob_list)
  moreover have "probability depth alpha beta t = Inr (prob_at alpha beta (nat t))"
    using probability_eq [OF assms(1,2,6)] assms(4) by simp
  ultimately show ?thesis
    using generate_probabilities_eq [OF assms(1,2), of n] by simp
qed

theorem probability_agrees_with_generate_probabilities_witness:
  "(0::real) < 1 \<and> (1::int) \<le> 4 \<and> (0::int) \<le> 2 \<and> (2::int) < 4 \<and> nat 2 < (3::nat) \<and>
   (\<exists>p. generate_probabilities 1 1 4 = Inr p \<and> probability 3 1 1 2 = Inr (p ! nat 2))"
  using probability_agrees_with_generate_probabilities [of 1 1 4 2 3] by simp

text \<open>
  C10. For \<open>alpha, beta > 0\<close> and every integer horizon \<open>x\<close>,
  \<open>generate_probabilities\<close> and \<open>predicted_survival\<close> return a list of length
  \<open>max(x, 1)\<close>; for \<open>x \<le> 0\<close> it is the one-element list holding the period-0 value.
\<close>

theorem horizon_length:
  assumes "0 < alpha" "0 < beta"
  shows "(\<exists>p. generate_probabilities alpha beta x = Inr p \<and> int (length p) = max x 1 \<and>
            (x \<le> 0 \<longrightarrow> p = [alpha / (alpha + beta)])) \<and>
         (\<exists>s. predicted_survival alpha beta x = Inr s \<and> int (length s) = max x 1 \<and>
            (x \<le> 0 \<longrightarrow> s = [beta / (alpha + beta)]))"
proof (intro conjI)
  let ?p = "map (prob_at alpha beta) [0..<Suc (nat (x - 1))]"
  have "int (length ?p) = max x 1"
    by simp
  moreover have "x \<le> 0 \<longrightarrow> ?p = [alpha / (alpha + beta)]"
    by simp
  ultimately show "\<exists>p. generate_probabilities alpha beta x = Inr p \<and>
      int (length p) = max x 1 \<and> (x \<le> 0 \<longrightarrow> p = [alpha / (alpha + beta)])"
    by (intro exI [of _ ?p] conjI generate_probabilities_eq [OF assms])
next
  let ?s = "map (\<lambda>t. surv_prod alpha beta (Suc t)) [0..<Suc (nat (x - 1))]"
  have "int (length ?s) = max x 1"
    by simp
  moreover have "x \<le> 0 \<longrightarrow> ?s = [beta / (alpha + beta)]"
    by simp
  ultimately show "\<exists>s. predicted_survival alpha beta x = Inr s \<and>
      int (length s) = max x 1 \<and> (x \<le> 0 \<longrightarrow> s = [beta / (alpha + beta)])"
    by (intro exI [of _ ?s] conjI predicted_survival_eq [OF assms])
qed

theorem horizon_length_witness:
  "(0::real) < 1 \<and> (0::real) < 3 \<and>
   (\<exists>p. generate_probabilities 1 3 0 = Inr p \<and> int (length p) = max 0 1 \<and> p = [1 / (1 + 3)]) \<and>
   (\<exists>s. predicted_survival 1 3 0 = Inr s \<and> int (length s) = max 0 1 \<and> s = [3 / (1 + 3)])"
  using horizon_length [of 1 3 0] by simp

end
